theory Spec2Isabelle
  imports Main "HOL-Library.Word"
begin

unbundle bit_operations_syntax

section \<open>The SSD1306 driver of \<^verbatim>\<open>state.py\<close>\<close>

text \<open>
  The driver is an object with mutable attributes; it talks to three outside parties:
  the I2C bus (\<^verbatim>\<open>i2c.write_byte_data\<close>), the optional reset pin and the clock
  (\<^verbatim>\<open>time.sleep\<close>). The model passes the object around as a record and records
  every call to an outside party, in program order, in the field \<open>trace\<close>. The bus is a
  recorder: a write never fails in the model. Python integers are \<open>int\<close>, the
  \<^verbatim>\<open>bytearray\<close> is a list of 8-bit words.
\<close>

subsection \<open>Command constants (lines 9 to 25)\<close>

definition SET_CONTRAST :: int where "SET_CONTRAST = 0x81"
definition SET_ENTIRE_ON :: int where "SET_ENTIRE_ON = 0xA4"
definition SET_NORM_INV :: int where "SET_NORM_INV = 0xA6"
definition SET_DISP :: int where "SET_DISP = 0xAE"
definition SET_MEM_ADDR :: int where "SET_MEM_ADDR = 0x20"
definition SET_COL_ADDR :: int where "SET_COL_ADDR = 0x21"
definition SET_PAGE_ADDR :: int where "SET_PAGE_ADDR = 0x22"
definition SET_DISP_START_LINE :: int where "SET_DISP_START_LINE = 0x40"
definition SET_SEG_REMAP :: int where "SET_SEG_REMAP = 0xA0"
definition SET_MUX_RATIO :: int where "SET_MUX_RATIO = 0xA8"
definition SET_COM_OUT_DIR :: int where "SET_COM_OUT_DIR = 0xC0"
definition SET_DISP_OFFSET :: int where "SET_DISP_OFFSET = 0xD3"
definition SET_COM_PIN_CFG :: int where "SET_COM_PIN_CFG = 0xDA"
definition SET_DISP_CLK_DIV :: int where "SET_DISP_CLK_DIV = 0xD5"
definition SET_PRECHARGE :: int where "SET_PRECHARGE = 0xD9"
definition SET_VCOM_DESEL :: int where "SET_VCOM_DESEL = 0xDB"
definition SET_CHARGE_PUMP :: int where "SET_CHARGE_PUMP = 0x8D"

subsection \<open>Outside world, errors, the driver object\<close>

text \<open>
  \<open>BusWrite a c v\<close> is \<^verbatim>\<open>i2c.write_byte_data(a, c, v)\<close>;
  \<open>SwitchToOutput v\<close> is \<^verbatim>\<open>reset_pin.switch_to_output(value=v)\<close>;
  \<open>PinValue v\<close> is \<^verbatim>\<open>reset_pin.value = v\<close>;
  \<open>Sleep t\<close> is \<^verbatim>\<open>time.sleep\<close> with the requested duration \<open>t\<close> in
  milliseconds (\<^verbatim>\<open>0.001\<close> is 1, \<^verbatim>\<open>0.010\<close> is 10).
\<close>

datatype event =
    BusWrite int int int
  | SwitchToOutput int
  | PinValue int
  | Sleep nat

datatype error = ValueError | IndexError | OutOfRangeError

text \<open>
  The attributes of an \<^verbatim>\<open>SSD1306_I2C\<close> object. \<open>reset_pin\<close> is the truth value
  of \<^verbatim>\<open>self.reset_pin\<close> (a pin object or \<^verbatim>\<open>None\<close>), \<open>external_vcc\<close>
  that of \<^verbatim>\<open>self.external_vcc\<close>, \<open>power_flag\<close> is \<^verbatim>\<open>self._power\<close>.
  \<open>buffer\<close> is \<^verbatim>\<open>self.buffer\<close>, the whole bytearray with its leading control
  byte. The attribute \<^verbatim>\<open>self.temp\<close> is never read and is left out.
\<close>

record driver =
  width :: int
  height :: int
  external_vcc :: bool
  reset_pin :: bool
  pages :: int
  power_flag :: bool
  addr :: int
  buffer :: "8 word list"
  trace :: "event list"

subsection \<open>The frame buffer's window on the bytearray\<close>

text \<open>
  The frame buffer is built on \<^verbatim>\<open>memoryview(self.buffer)[1:]\<close> (line 169): a window
  that shares the bytearray's storage, whose element \<open>i\<close> is element \<open>i + 1\<close> of the
  bytearray. Reads and writes through the window are in range when \<open>i < view_len\<close>;
  the callers below check that first and return \<open>IndexError\<close> otherwise, where Python
  raises it and changes nothing. The window cannot be resized.
\<close>

definition view_len :: "driver \<Rightarrow> nat" where
  "view_len self = length (buffer self) - 1"

definition view_get :: "driver \<Rightarrow> nat \<Rightarrow> 8 word" where
  "view_get self i = buffer self ! (i + 1)"

definition view_set :: "nat \<Rightarrow> 8 word \<Rightarrow> driver \<Rightarrow> driver" where
  "view_set i v self = self\<lparr>buffer := (buffer self)[i + 1 := v]\<rparr>"

subsection \<open>The pixel buffer (module \<^verbatim>\<open>framebuf\<close>, not among the sources)\<close>

text \<open>
  Modelled from the spec: the pixel operations of the base class
  \<^verbatim>\<open>framebuf.FrameBuffer\<close>, whose module is imported by \<^verbatim>\<open>state.py\<close> but
  is not part of the sources. Section 4.1 of the specification gives them:
  \<open>fill(color)\<close> sets every byte to 0x00 or 0xFF.
\<close>

definition fill :: "int \<Rightarrow> driver \<Rightarrow> driver" where
  "fill color self =
     fold (\<lambda>i. view_set i (if color = 0 then 0x00 else 0xFF)) [0..<view_len self] self"

text \<open>
  Modelled from the spec: \<open>set(x, y, color)\<close> of section 4.1, under its caller-facing
  name \<open>setPixel\<close> of section 6. Constraints \<open>0 \<le> x < width\<close>, \<open>0 \<le> y < height\<close>;
  target byte index \<open>(y // 8) * width + x\<close>, target bit \<open>y % 8\<close>; sets or clears that
  bit. Out-of-range coordinates are rejected with an error (the specification leaves the
  choice between rejecting and clipping open); an index outside the byte sequence is an
  \<open>IndexError\<close>, as for any Python buffer.
\<close>

definition setPixel :: "int \<Rightarrow> int \<Rightarrow> int \<Rightarrow> driver \<Rightarrow> error + driver" where
  "setPixel x y color self =
     (if 0 \<le> x \<and> x < width self \<and> 0 \<le> y \<and> y < height self then
        (let index = (y div 8) * width self + x;
             b = nat (y mod 8)
         in if 0 \<le> index \<and> index < int (view_len self) then
              Inr (view_set (nat index)
                     ((if color = 0 then unset_bit b else set_bit b) (view_get self (nat index)))
                     self)
            else Inl IndexError)
      else Inl OutOfRangeError)"

text \<open>
  Modelled from the spec: \<open>get(x, y)\<close> of section 4.1 (\<open>getPixel\<close> in section 6):
  same constraints as \<open>set\<close>, returns 0 or 1.
\<close>

definition getPixel :: "int \<Rightarrow> int \<Rightarrow> driver \<Rightarrow> error + int" where
  "getPixel x y self =
     (if 0 \<le> x \<and> x < width self \<and> 0 \<le> y \<and> y < height self then
        (let index = (y div 8) * width self + x;
             b = nat (y mod 8)
         in if 0 \<le> index \<and> index < int (view_len self) then
              Inr (if bit (view_get self (nat index)) b then 1 else 0)
            else Inl IndexError)
      else Inl OutOfRangeError)"

text \<open>
  Modelled from the spec: \<open>serialize()\<close> of section 4.1 returns the pixel buffer's byte
  sequence in storage order.
\<close>

definition serialize :: "driver \<Rightarrow> 8 word list" where
  "serialize self = map (view_get self) [0..<view_len self]"

subsection \<open>Bus writes (lines 176 to 187)\<close>

definition write_cmd :: "int \<Rightarrow> driver \<Rightarrow> driver" where
  "write_cmd cmd self = self\<lparr>trace := trace self @ [BusWrite (addr self) 0x80 cmd]\<rparr>"

text \<open>
  \<^verbatim>\<open>for i in self.buffer[1:]\<close>: the slice is a copy of the bytearray without its
  first byte; iterating it yields integers from 0 to 255.
\<close>

definition write_framebuf :: "driver \<Rightarrow> driver" where
  "write_framebuf self =
     fold (\<lambda>i s. s\<lparr>trace := trace s @ [BusWrite (addr s) 0x40 (uint i)]\<rparr>)
       (drop 1 (buffer self)) self"

subsection \<open>The base class (lines 28 to 142)\<close>

definition power_query :: "driver \<Rightarrow> bool" where
  "power_query self = power_flag self"

definition poweroff :: "driver \<Rightarrow> driver" where
  "poweroff self = (write_cmd (SET_DISP OR 0x00) self)\<lparr>power_flag := False\<rparr>"

definition contrast :: "int \<Rightarrow> driver \<Rightarrow> driver" where
  "contrast c self = write_cmd c (write_cmd SET_CONTRAST self)"

definition invert :: "int \<Rightarrow> driver \<Rightarrow> driver" where
  "invert flag self = write_cmd (SET_NORM_INV OR (flag AND 1)) self"

definition poweron :: "driver \<Rightarrow> driver" where
  "poweron self =
     (let self =
            (if reset_pin self then
               self\<lparr>trace := trace self @
                 [PinValue 1, Sleep 1, PinValue 0, Sleep 10, PinValue 1, Sleep 10]\<rparr>
             else self);
          self = write_cmd (SET_DISP OR 0x01) self
      in self\<lparr>power_flag := True\<rparr>)"

definition show_display :: "driver \<Rightarrow> driver" where
  "show_display self =
     (let xpos0 = 0;
          xpos1 = width self - 1;
          (xpos0, xpos1) = (if width self = 64 then (xpos0 + 32, xpos1 + 32) else (xpos0, xpos1));
          (xpos0, xpos1) = (if width self = 72 then (xpos0 + 28, xpos1 + 28) else (xpos0, xpos1));
          self = write_cmd SET_COL_ADDR self;
          self = write_cmd xpos0 self;
          self = write_cmd xpos1 self;
          self = write_cmd SET_PAGE_ADDR self;
          self = write_cmd 0 self;
          self = write_cmd (pages self - 1) self
      in write_framebuf self)"

definition init_display :: "driver \<Rightarrow> driver" where
  "init_display self =
     (let self = fold write_cmd
            [SET_DISP OR 0x00,
             SET_MEM_ADDR,
             0x00,
             SET_DISP_START_LINE OR 0x00,
             SET_SEG_REMAP OR 0x01,
             SET_MUX_RATIO,
             height self - 1,
             SET_COM_OUT_DIR OR 0x08,
             SET_DISP_OFFSET,
             0x00,
             SET_COM_PIN_CFG,
             (if height self = 32 \<or> height self = 16 then 0x02 else 0x12),
             SET_DISP_CLK_DIV,
             0x80,
             SET_PRECHARGE,
             (if external_vcc self then 0x22 else 0xF1),
             SET_VCOM_DESEL,
             0x30,
             SET_CONTRAST,
             0xFF,
             SET_ENTIRE_ON,
             SET_NORM_INV,
             SET_CHARGE_PUMP,
             (if external_vcc self then 0x10 else 0x14),
             SET_DISP OR 0x01] self;
          self = (if width self = 72 then write_cmd 0x30 (write_cmd 0xAD self) else self);
          self = fill 0 self
      in show_display self)"

text \<open>
  \<^verbatim>\<open>_SSD1306.__init__\<close> (lines 31 to 44), run on the object the subclass has begun
  to fill in. The frame buffer's own constructor stores the window, the width and the
  height.
\<close>

definition SSD1306_init :: "driver \<Rightarrow> int \<Rightarrow> int \<Rightarrow> bool \<Rightarrow> bool \<Rightarrow> driver" where
  "SSD1306_init self w h vcc rst =
     (let self = self\<lparr>width := w, height := h, external_vcc := vcc, reset_pin := rst\<rparr>;
          self = (if reset_pin self then self\<lparr>trace := trace self @ [SwitchToOutput 0]\<rparr>
                  else self);
          self = self\<lparr>pages := height self div 8\<rparr>;
          self = self\<lparr>power_flag := False\<rparr>;
          self = poweron self
      in init_display self)"

subsection \<open>The I2C class (lines 145 to 187)\<close>

text \<open>\<^verbatim>\<open>bytearray(n)\<close>: \<open>n\<close> zero bytes, a \<^verbatim>\<open>ValueError\<close> for a negative count.\<close>

definition bytearray :: "int \<Rightarrow> error + 8 word list" where
  "bytearray n = (if n < 0 then Inl ValueError else Inr (replicate (nat n) 0))"

text \<open>
  \<^verbatim>\<open>SSD1306_I2C.__init__\<close>. The assignment \<^verbatim>\<open>self.buffer[0] = 0x40\<close> raises
  \<^verbatim>\<open>IndexError\<close> on an empty bytearray. The attributes that only the base class
  sets start at placeholder values, which \<open>SSD1306_init\<close> overwrites before any use.
  The trace starts empty: it records what this object does.
\<close>

definition SSD1306_I2C :: "int \<Rightarrow> int \<Rightarrow> int \<Rightarrow> bool \<Rightarrow> bool \<Rightarrow> error + driver" where
  "SSD1306_I2C w h a vcc rst =
     (case bytearray (((h div 8) * w) + 1) of
        Inl e \<Rightarrow> Inl e
      | Inr buf \<Rightarrow>
          if length buf = 0 then Inl IndexError
          else Inr (SSD1306_init
                 \<lparr>width = 0, height = 0, external_vcc = False, reset_pin = False, pages = 0,
                  power_flag = False, addr = a, buffer = buf[0 := 0x40], trace = []\<rparr>
                 w h vcc rst))"

text \<open>The call \<^verbatim>\<open>SSD1306_I2C(width, height, i2c)\<close> with the defaults of line 157.\<close>

definition SSD1306_I2C_default :: "int \<Rightarrow> int \<Rightarrow> error + driver" where
  "SSD1306_I2C_default w h = SSD1306_I2C w h 0x3C False False"

subsection \<open>Notation for traces\<close>

text \<open>A run of command writes and a run of data writes to the device at address \<open>a\<close>.\<close>

definition cmds :: "int \<Rightarrow> int list \<Rightarrow> event list" where
  "cmds a cs = map (BusWrite a 0x80) cs"

definition data :: "int \<Rightarrow> 8 word list \<Rightarrow> event list" where
  "data a bs = map (\<lambda>b. BusWrite a 0x40 (uint b)) bs"

subsection \<open>Operations a caller can run on a driver\<close>

text \<open>
  The methods that change the object or talk to the outside, as a datatype, so that
  "every driver" can be read as: the object the constructor returns, after any sequence
  of method calls. A pixel write that raises leaves the object as it was.
\<close>

datatype op =
    Poweroff
  | Poweron
  | Contrast int
  | Invert int
  | Show
  | InitDisplay
  | Fill int
  | SetPixel int int int
  | WriteCmd int
  | WriteFramebuf

fun exec_op :: "op \<Rightarrow> driver \<Rightarrow> driver" where
  "exec_op Poweroff d = poweroff d"
| "exec_op Poweron d = poweron d"
| "exec_op (Contrast c) d = contrast c d"
| "exec_op (Invert f) d = invert f d"
| "exec_op Show d = show_display d"
| "exec_op InitDisplay d = init_display d"
| "exec_op (Fill c) d = fill c d"
| "exec_op (SetPixel x y c) d = (case setPixel x y c d of Inl e \<Rightarrow> d | Inr d' \<Rightarrow> d')"
| "exec_op (WriteCmd c) d = write_cmd c d"
| "exec_op WriteFramebuf d = write_framebuf d"

definition run :: "op list \<Rightarrow> driver \<Rightarrow> driver" where
  "run ops d = fold exec_op ops d"

text \<open>The driver of the main block, line 199: \<^verbatim>\<open>oled = SSD1306_I2C(128, 64, i2c)\<close>.\<close>

definition oled :: driver where
  "oled = projr (SSD1306_I2C_default 128 64)"

text \<open>
  A driver for a height that is not a multiple of 8: the constructor checks no geometry
  and returns a driver for \<^verbatim>\<open>SSD1306_I2C(2, 12, i2c)\<close>, with one page.
\<close>

definition panel_2x12 :: driver where
  "panel_2x12 = projr (SSD1306_I2C 2 12 0x3C False False)"

subsection \<open>Notions used to state the properties\<close>

text \<open>
  What the constructor establishes and every operation keeps: the page count is
  \<open>height // 8\<close>, and the bytearray holds one control byte, of value 0x40, followed by
  \<open>pages * width\<close> pixel bytes.
\<close>

definition driver_inv :: "driver \<Rightarrow> bool" where
  "driver_inv d \<longleftrightarrow>
     pages d = height d div 8 \<and> 0 \<le> pages d * width d \<and>
     length (buffer d) = nat (pages d * width d) + 1 \<and> buffer d ! 0 = 0x40"

text \<open>
  The initialization sequence as section 4.2 of the specification lists it, steps 1 to
  16, and step 17 for a width of 72.
\<close>

definition init_sequence :: "int \<Rightarrow> int \<Rightarrow> bool \<Rightarrow> int list" where
  "init_sequence w h vcc =
     [0xAE,
      0x20, 0x00,
      0x40,
      0xA1,
      0xA8, h - 1,
      0xC8,
      0xD3, 0x00,
      0xDA, (if h = 16 \<or> h = 32 then 0x02 else 0x12),
      0xD5, 0x80,
      0xD9, (if vcc then 0x22 else 0xF1),
      0xDB, 0x30,
      0x81, 0xFF,
      0xA4,
      0xA6,
      0x8D, (if vcc then 0x10 else 0x14),
      0xAF]
     @ (if w = 72 then [0xAD, 0x30] else [])"

text \<open>The column offset of a panel width, as the specification's \<open>show\<close> gives it.\<close>

definition column_offset :: "int \<Rightarrow> int" where
  "column_offset w = (if w = 64 then 32 else if w = 72 then 28 else 0)"

text \<open>The six window-setting commands of one \<open>show\<close>.\<close>

definition window_cmds :: "driver \<Rightarrow> int list" where
  "window_cmds d =
     [0x21, column_offset (width d), width d - 1 + column_offset (width d),
      0x22, 0, pages d - 1]"

text \<open>The events of the reset pulse of \<open>poweron\<close>, when there is a reset line.\<close>

definition reset_pulse :: "bool \<Rightarrow> event list" where
  "reset_pulse rst =
     (if rst then [PinValue 1, Sleep 1, PinValue 0, Sleep 10, PinValue 1, Sleep 10] else [])"

text \<open>
  A bus write is well framed for the device at \<open>a\<close> when it goes to \<open>a\<close> with control
  byte 0x80 or 0x40; the other events are not bus writes.
\<close>

fun well_framed :: "int \<Rightarrow> event \<Rightarrow> bool" where
  "well_framed a (BusWrite a' c v) = (a' = a \<and> (c = 0x80 \<or> c = 0x40))"
| "well_framed a _ = True"

text \<open>
  Every operation leaves the geometry, the address and the flags of the constructor as
  they are, keeps the bytearray's length and first byte, and only appends well-framed
  events to the trace.
\<close>

definition same_frame :: "driver \<Rightarrow> driver \<Rightarrow> bool" where
  "same_frame d d' \<longleftrightarrow>
     width d' = width d \<and> height d' = height d \<and> pages d' = pages d \<and> addr d' = addr d \<and>
     external_vcc d' = external_vcc d \<and> reset_pin d' = reset_pin d \<and>
     length (buffer d') = length (buffer d) \<and> buffer d' ! 0 = buffer d ! 0 \<and>
     (\<exists>t. trace d' = trace d @ t \<and> list_all (well_framed (addr d)) t)"

text \<open>The command bytes of a trace, in order: the values written with control byte 0x80.\<close>

fun command_bytes :: "event list \<Rightarrow> int list" where
  "command_bytes [] = []"
| "command_bytes (BusWrite a c v # es) = (if c = 0x80 then v # command_bytes es else command_bytes es)"
| "command_bytes (e # es) = command_bytes es"

text \<open>The number of positions of \<open>ys\<close> at which \<open>xs\<close> starts as a contiguous run.\<close>

fun occurrences :: "'a list \<Rightarrow> 'a list \<Rightarrow> nat" where
  "occurrences xs [] = (if xs = [] then 1 else 0)"
| "occurrences xs (y # ys) = (if take (length xs) (y # ys) = xs then 1 else 0) + occurrences xs ys"

section \<open>Basic facts\<close>

lemmas command_defs =
  SET_CONTRAST_def SET_ENTIRE_ON_def SET_NORM_INV_def SET_DISP_def SET_MEM_ADDR_def
  SET_COL_ADDR_def SET_PAGE_ADDR_def SET_DISP_START_LINE_def SET_SEG_REMAP_def
  SET_MUX_RATIO_def SET_COM_OUT_DIR_def SET_DISP_OFFSET_def SET_COM_PIN_CFG_def
  SET_DISP_CLK_DIV_def SET_PRECHARGE_def SET_VCOM_DESEL_def SET_CHARGE_PUMP_def


lemma fold_write_cmd:
  "fold write_cmd cs d = d\<lparr>trace := trace d @ cmds (addr d) cs\<rparr>"
  by (induction cs arbitrary: d) (simp_all add: write_cmd_def cmds_def)

lemma write_cmd_eq:
  "write_cmd c d = d\<lparr>trace := trace d @ cmds (addr d) [c]\<rparr>"
  by (simp add: write_cmd_def cmds_def)

lemma fold_data_write:
  "fold (\<lambda>i s. s\<lparr>trace := trace s @ [BusWrite (addr s) 0x40 (uint i)]\<rparr>) bs d
     = d\<lparr>trace := trace d @ data (addr d) bs\<rparr>"
  by (induction bs arbitrary: d) (simp_all add: data_def)

lemma write_framebuf_eq:
  "write_framebuf d = d\<lparr>trace := trace d @ data (addr d) (drop 1 (buffer d))\<rparr>"
  by (simp add: write_framebuf_def fold_data_write)

lemma cmds_append: "cmds a (xs @ ys) = cmds a xs @ cmds a ys"
  by (simp add: cmds_def)

lemma show_display_eq:
  "show_display d =
     d\<lparr>trace := trace d
        @ cmds (addr d)
            [0x21,
             (if width d = 64 then 32 else if width d = 72 then 28 else 0),
             width d - 1 + (if width d = 64 then 32 else if width d = 72 then 28 else 0),
             0x22, 0, pages d - 1]
        @ data (addr d) (drop 1 (buffer d))\<rparr>"
  by (simp add: show_display_def write_cmd_eq write_framebuf_eq cmds_def command_defs)

lemma fold_view_set:
  "fold (\<lambda>i. view_set i v) is d = d\<lparr>buffer := fold (\<lambda>i b. b[Suc i := v]) is (buffer d)\<rparr>"
  by (induction "is" arbitrary: d) (simp_all add: view_set_def)

lemma length_fold_update:
  "length (fold (\<lambda>i b. b[Suc i := v]) is (b::'a list)) = length b"
  by (induction "is" arbitrary: b) simp_all

lemma nth_fold_update:
  "k < length b \<Longrightarrow>
   fold (\<lambda>i b. b[Suc i := v]) [0..<n] (b::'a list) ! k = (if 1 \<le> k \<and> k \<le> n then v else b ! k)"
proof (induction n)
  case 0
  then show ?case by auto
next
  case (Suc n)
  show ?case
  proof (cases "k = Suc n")
    case True
    with Suc.prems show ?thesis
      by (simp add: length_fold_update)
  next
    case False
    with Suc show ?thesis
      by auto
  qed
qed

lemma fold_update_all:
  "fold (\<lambda>i b. b[Suc i := v]) [0..<length b - Suc 0] (b::'a list) = take (Suc 0) b @ replicate (length b - Suc 0) v"
proof (rule nth_equalityI)
  show "length (fold (\<lambda>i b. b[Suc i := v]) [0..<length b - Suc 0] b) = length (take (Suc 0) b @ replicate (length b - Suc 0) v)"
    by (cases b) (simp_all add: length_fold_update)
next
  fix k assume "k < length (fold (\<lambda>i b. b[Suc i := v]) [0..<length b - Suc 0] b)"
  then have k: "k < length b" by (simp add: length_fold_update)
  then show "fold (\<lambda>i b. b[Suc i := v]) [0..<length b - Suc 0] b ! k = (take (Suc 0) b @ replicate (length b - Suc 0) v) ! k"
    by (cases b) (auto simp add: nth_fold_update nth_append nth_Cons')
qed

lemma fill_eq:
  "fill c d = d\<lparr>buffer := take 1 (buffer d) @ replicate (length (buffer d) - 1) (if c = 0 then 0x00 else 0xFF)\<rparr>"
  by (simp add: fill_def fold_view_set view_len_def fold_update_all)

lemma init_display_eq:
  "init_display d =
     d\<lparr>buffer := take 1 (buffer d) @ replicate (length (buffer d) - 1) 0,
       trace := trace d @ cmds (addr d) (init_sequence (width d) (height d) (external_vcc d))
                @ cmds (addr d) (window_cmds d)
                @ data (addr d) (replicate (length (buffer d) - 1) 0)\<rparr>"
  by (cases "buffer d")
     (simp_all add: init_display_def fold_write_cmd write_cmd_eq fill_eq show_display_eq
      init_sequence_def window_cmds_def column_offset_def cmds_def command_defs Let_def)

lemma poweron_eq:
  "poweron d = d\<lparr>trace := trace d @ reset_pulse (reset_pin d) @ cmds (addr d) [0xAF], power_flag := True\<rparr>"
  by (simp add: poweron_def write_cmd_eq reset_pulse_def command_defs Let_def)

lemma poweroff_eq:
  "poweroff d = d\<lparr>trace := trace d @ cmds (addr d) [0xAE], power_flag := False\<rparr>"
  by (simp add: poweroff_def write_cmd_eq command_defs)

lemma SSD1306_init_eq:
  "SSD1306_init s w h vcc rst =
     s\<lparr>width := w, height := h, external_vcc := vcc, reset_pin := rst,
       pages := h div 8, power_flag := True,
       buffer := take 1 (buffer s) @ replicate (length (buffer s) - 1) 0,
       trace := trace s @ (if rst then [SwitchToOutput 0] else []) @ reset_pulse rst
                @ cmds (addr s) [0xAF]
                @ cmds (addr s) (init_sequence w h vcc)
                @ cmds (addr s) [0x21, column_offset w, w - 1 + column_offset w, 0x22, 0, h div 8 - 1]
                @ data (addr s) (replicate (length (buffer s) - 1) 0)\<rparr>"
  by (simp add: SSD1306_init_def poweron_eq init_display_eq window_cmds_def Let_def)

lemma SSD1306_I2C_eq:
  assumes "0 \<le> (h div 8) * w"
  shows "SSD1306_I2C w h a vcc rst =
     Inr \<lparr>width = w, height = h, external_vcc = vcc, reset_pin = rst,
          pages = h div 8, power_flag = True, addr = a,
          buffer = 0x40 # replicate (nat ((h div 8) * w)) 0,
          trace = (if rst then [SwitchToOutput 0] else []) @ reset_pulse rst
                @ cmds a [0xAF]
                @ cmds a (init_sequence w h vcc)
                @ cmds a [0x21, column_offset w, w - 1 + column_offset w, 0x22, 0, h div 8 - 1]
                @ data a (replicate (nat ((h div 8) * w)) 0)\<rparr>"
proof -
  have n: "nat ((h div 8) * w + 1) = Suc (nat ((h div 8) * w))"
    using assms by (simp add: nat_add_distrib)
  show ?thesis
    using assms by (simp add: SSD1306_I2C_def bytearray_def SSD1306_init_eq n)
qed

lemma SSD1306_I2C_error:
  assumes "(h div 8) * w < 0"
  shows "SSD1306_I2C w h a vcc rst = Inl (if (h div 8) * w = - 1 then IndexError else ValueError)"
  using assms by (auto simp add: SSD1306_I2C_def bytearray_def)

lemma oled_eq: "SSD1306_I2C_default 128 64 = Inr oled"
  by (simp add: oled_def SSD1306_I2C_default_def SSD1306_I2C_eq)

lemma oled_fields:
  "width oled = 128" "height oled = 64" "pages oled = 8" "addr oled = 0x3C"
  "external_vcc oled = False" "reset_pin oled = False" "power_flag oled = True"
  "buffer oled = 0x40 # replicate 1024 0"
  by (simp_all add: oled_def SSD1306_I2C_default_def SSD1306_I2C_eq)

lemma serialize_eq: "serialize d = drop 1 (buffer d)"
  by (rule nth_equalityI) (simp_all add: serialize_def view_len_def view_get_def)

lemma contrast_eq: "contrast c d = d\<lparr>trace := trace d @ cmds (addr d) [0x81, c]\<rparr>"
  by (simp add: contrast_def write_cmd_eq cmds_def command_defs)

lemma invert_eq: "invert f d = d\<lparr>trace := trace d @ cmds (addr d) [0xA6 OR (f AND 1)]\<rparr>"
  by (simp add: invert_def write_cmd_eq command_defs)

lemma setPixel_eq:
  "setPixel x y c d = Inr d' \<Longrightarrow>
   d' = d\<lparr>buffer := (buffer d)[Suc (nat ((y div 8) * width d + x)) :=
          (if c = 0 then unset_bit (nat (y mod 8)) else set_bit (nat (y mod 8)))
            (buffer d ! Suc (nat ((y div 8) * width d + x)))]\<rparr>"
  by (auto simp add: setPixel_def view_set_def view_get_def Let_def split: if_splits)

lemma well_framed_cmds: "list_all (well_framed a) (cmds a cs)"
  by (simp add: cmds_def list_all_iff)

lemma well_framed_data: "list_all (well_framed a) (data a bs)"
  by (simp add: data_def list_all_iff)

lemma well_framed_reset_pulse: "list_all (well_framed a) (reset_pulse r)"
  by (simp add: reset_pulse_def)

lemma same_frame_refl: "same_frame d d"
  by (simp add: same_frame_def)

lemma same_frame_trans: "same_frame d d' \<Longrightarrow> same_frame d' d'' \<Longrightarrow> same_frame d d''"
  by (auto simp add: same_frame_def)

lemma take1_replicate_nth0:
  "(take (Suc 0) b @ replicate (length b - Suc 0) v) ! 0 = b ! 0"
  by (cases b) simp_all

lemma take1_replicate_length:
  "length (take (Suc 0) b @ replicate (length b - Suc 0) v) = length b"
  by (cases b) simp_all

lemma same_frame_exec_op: "same_frame d (exec_op op d)"
proof (cases op)
  case Poweroff
  then show ?thesis by (simp add: same_frame_def poweroff_eq well_framed_cmds)
next
  case Poweron
  then show ?thesis
    by (simp add: same_frame_def poweron_eq well_framed_cmds well_framed_reset_pulse)
next
  case (Contrast c)
  then show ?thesis by (simp add: same_frame_def contrast_eq well_framed_cmds)
next
  case (Invert f)
  then show ?thesis by (simp add: same_frame_def invert_eq well_framed_cmds)
next
  case Show
  then show ?thesis
    by (simp add: same_frame_def show_display_eq well_framed_cmds well_framed_data)
next
  case InitDisplay
  then show ?thesis
    by (simp add: same_frame_def init_display_eq well_framed_cmds well_framed_data
        take1_replicate_nth0 take1_replicate_length)
next
  case (Fill c)
  then show ?thesis
    by (simp add: same_frame_def fill_eq take1_replicate_nth0 take1_replicate_length)
next
  case (SetPixel x y c)
  show ?thesis
  proof (cases "setPixel x y c d")
    case (Inl e)
    with SetPixel show ?thesis by (simp add: same_frame_refl)
  next
    case (Inr d')
    from setPixel_eq [OF Inr] SetPixel Inr show ?thesis
      by (simp add: same_frame_def)
  qed
next
  case (WriteCmd c)
  then show ?thesis by (simp add: same_frame_def write_cmd_eq well_framed_cmds)
next
  case WriteFramebuf
  then show ?thesis by (simp add: same_frame_def write_framebuf_eq well_framed_data)
qed

lemma same_frame_run: "same_frame d (run ops d)"
  unfolding run_def
proof (induction ops arbitrary: d)
  case Nil
  show ?case by (simp add: same_frame_refl)
next
  case (Cons op ops)
  have "same_frame d (exec_op op d)" by (rule same_frame_exec_op)
  moreover have "same_frame (exec_op op d) (fold exec_op ops (exec_op op d))" by (rule Cons.IH)
  ultimately show ?case by (simp add: same_frame_trans)
qed

lemma run_fields:
  "width (run ops d) = width d" "height (run ops d) = height d" "pages (run ops d) = pages d"
  "addr (run ops d) = addr d" "external_vcc (run ops d) = external_vcc d"
  "reset_pin (run ops d) = reset_pin d" "length (buffer (run ops d)) = length (buffer d)"
  "buffer (run ops d) ! 0 = buffer d ! 0"
  using same_frame_run [of d ops] by (simp_all add: same_frame_def)

lemma constructed_fields:
  assumes "SSD1306_I2C w h a vcc rst = Inr d"
  shows "width d = w" "height d = h" "pages d = h div 8" "addr d = a" "external_vcc d = vcc"
    "reset_pin d = rst" "power_flag d = True" "0 \<le> (h div 8) * w"
    "buffer d = 0x40 # replicate (nat ((h div 8) * w)) 0"
proof -
  show nonneg: "0 \<le> (h div 8) * w"
  proof (rule ccontr)
    assume "\<not> 0 \<le> (h div 8) * w"
    then have "(h div 8) * w < 0" by simp
    from SSD1306_I2C_error [OF this] assms show False by simp
  qed
  from assms SSD1306_I2C_eq [OF nonneg, of a vcc rst]
  show "width d = w" "height d = h" "pages d = h div 8" "addr d = a" "external_vcc d = vcc"
    "reset_pin d = rst" "power_flag d = True"
    "buffer d = 0x40 # replicate (nat ((h div 8) * w)) 0"
    by auto
qed

lemma constructed_trace:
  assumes "SSD1306_I2C w h a vcc rst = Inr d"
  shows "trace d = (if rst then [SwitchToOutput 0] else []) @ reset_pulse rst
                @ cmds a [0xAF]
                @ cmds a (init_sequence w h vcc)
                @ cmds a [0x21, column_offset w, w - 1 + column_offset w, 0x22, 0, h div 8 - 1]
                @ data a (replicate (nat ((h div 8) * w)) 0)"
  using assms SSD1306_I2C_eq [OF constructed_fields(8) [OF assms], of a vcc rst] by auto

lemma command_bytes_append:
  "command_bytes (xs @ ys) = command_bytes xs @ command_bytes ys"
  by (induction xs rule: command_bytes.induct) simp_all

lemma command_bytes_cmds: "command_bytes (cmds a cs) = cs"
  by (induction cs) (simp_all add: cmds_def)

lemma command_bytes_data: "command_bytes (data a bs) = []"
  by (induction bs) (simp_all add: data_def)

lemma command_bytes_reset_pulse: "command_bytes (reset_pulse r) = []"
  by (simp add: reset_pulse_def)

lemma occurrences_init_sequence:
  "occurrences (init_sequence w h vcc)
     ([0xAF] @ init_sequence w h vcc @ [0x21, x0, x1, 0x22, 0, p] @ [0xAE, 0xAF]) = 1"
  by (simp add: init_sequence_def)

lemma driver_inv_run:
  assumes "SSD1306_I2C w h a vcc rst = Inr d0"
  shows "driver_inv (run ops d0)"
  using constructed_fields [OF assms]
  by (simp add: driver_inv_def run_fields)

lemma view_len_inv: "driver_inv d \<Longrightarrow> int (view_len d) = pages d * width d"
  unfolding driver_inv_def view_len_def by linarith

lemma nat_less_view: "0 \<le> (i::int) \<Longrightarrow> i < j \<Longrightarrow> int n = j \<Longrightarrow> nat i < n"
  by linarith

lemma page_column_index:
  fixes p c n w :: int
  assumes "0 \<le> p" "p < n" "0 \<le> c" "c < w"
  shows "0 \<le> p * w + c" and "p * w + c < n * w"
proof -
  have w: "0 < w" using assms by simp
  show "0 \<le> p * w + c" using assms w by simp
  have "p * w + c < (p + 1) * w" using assms by (simp add: algebra_simps)
  also have "(p + 1) * w \<le> n * w"
    using assms w by (intro mult_right_mono) simp_all
  finally show "p * w + c < n * w" .
qed


lemma bit_255: "n < 8 \<Longrightarrow> bit (255 :: 8 word) n"
proof -
  assume n: "n < 8"
  then have "bit (mask 8 :: 8 word) n"
    by (simp add: bit_mask_iff)
  then show ?thesis
    by (simp add: mask_eq_exp_minus_1)
qed

lemma pixel_index_inj:
  fixes q q' x x' w :: int
  assumes "0 \<le> x" "x < w" "0 \<le> x'" "x' < w" "q * w + x = q' * w + x'"
  shows "q = q' \<and> x = x'"
proof -
  have w: "w \<noteq> 0" using assms(1,2) by auto
  have "(q * w + x) div w = q"
    using assms(1,2) w by simp
  moreover have "(q' * w + x') div w = q'"
    using assms(3,4) w by simp
  ultimately have "q = q'"
    using assms(5) by simp
  with assms(5) show ?thesis by simp
qed


lemma rows_in_pages:
  fixes h y :: int
  shows "h mod 8 = 0 \<Longrightarrow> y < h \<Longrightarrow> y < 8 * (h div 8)"
  by presburger

lemma pixel_index_bound:
  assumes "driver_inv d" "0 \<le> x" "x < width d" "0 \<le> y" "y < 8 * (height d div 8)"
  shows "0 \<le> (y div 8) * width d + x" and "(y div 8) * width d + x < int (view_len d)"
proof -
  have pg: "pages d = height d div 8"
    using assms(1) by (simp add: driver_inv_def)
  have q: "0 \<le> y div 8" "y div 8 < pages d"
    using pg assms(4,5) by presburger+
  show "0 \<le> (y div 8) * width d + x"
    using q assms(2,3) by (rule page_column_index(1))
  have "(y div 8) * width d + x < pages d * width d"
    using q assms(2,3) by (rule page_column_index(2))
  then show "(y div 8) * width d + x < int (view_len d)"
    by (simp add: view_len_inv [OF assms(1)])
qed

lemma getPixel_in_range:
  assumes "driver_inv d" "0 \<le> x" "x < width d" "0 \<le> y" "y < 8 * (height d div 8)"
    and "y < height d"
  shows "getPixel x y d =
     Inr (if bit (buffer d ! Suc (nat ((y div 8) * width d + x))) (nat (y mod 8)) then 1 else 0)"
  using assms pixel_index_bound [OF assms(1-5)]
  by (simp add: getPixel_def view_get_def Let_def)

lemma setPixel_in_range:
  assumes "driver_inv d" "0 \<le> x" "x < width d" "0 \<le> y" "y < 8 * (height d div 8)"
    and "y < height d"
  shows "setPixel x y c d =
     Inr (d\<lparr>buffer := (buffer d)[Suc (nat ((y div 8) * width d + x)) :=
            (if c = 0 then unset_bit (nat (y mod 8)) else set_bit (nat (y mod 8)))
              (buffer d ! Suc (nat ((y div 8) * width d + x)))]\<rparr>)"
  using assms pixel_index_bound [OF assms(1-5)]
  by (simp add: setPixel_def view_get_def view_set_def Let_def)

lemma driver_inv_buffer_update:
  "driver_inv d \<Longrightarrow> driver_inv (d\<lparr>buffer := (buffer d)[Suc i := v]\<rparr>)"
  by (auto simp add: driver_inv_def)

text \<open>
  Two drivers of the same geometry and buffer length answer \<open>get\<close> alike wherever the
  bit that \<open>get\<close> reads is the same in both; where \<open>get\<close> fails, it fails in both.
\<close>

lemma getPixel_cong:
  assumes "width d' = width d" "height d' = height d" "length (buffer d') = length (buffer d)"
    and "\<lbrakk>0 \<le> x; x < width d; 0 \<le> y; y < height d;
          0 \<le> (y div 8) * width d + x; (y div 8) * width d + x < int (view_len d)\<rbrakk>
         \<Longrightarrow> bit (buffer d' ! Suc (nat ((y div 8) * width d + x))) (nat (y mod 8))
           = bit (buffer d ! Suc (nat ((y div 8) * width d + x))) (nat (y mod 8))"
  shows "getPixel x y d' = getPixel x y d"
proof (cases "0 \<le> x \<and> x < width d \<and> 0 \<le> y \<and> y < height d")
  case False
  then have "\<not> (0 \<le> x \<and> x < width d' \<and> 0 \<le> y \<and> y < height d')"
    using assms(1,2) by simp
  then have "getPixel x y d' = Inl OutOfRangeError"
    unfolding getPixel_def by (rule if_not_P)
  moreover have "getPixel x y d = Inl OutOfRangeError"
    unfolding getPixel_def using False by (rule if_not_P)
  ultimately show ?thesis
    by simp
next
  case inb: True
  have vl: "view_len d' = view_len d"
    using assms(3) by (simp add: view_len_def)
  show ?thesis
  proof (cases "0 \<le> (y div 8) * width d + x \<and> (y div 8) * width d + x < int (view_len d)")
    case True
    with inb assms(4) have "bit (buffer d' ! Suc (nat ((y div 8) * width d + x))) (nat (y mod 8))
           = bit (buffer d ! Suc (nat ((y div 8) * width d + x))) (nat (y mod 8))"
      by simp
    with inb True show ?thesis
      by (simp add: getPixel_def view_get_def Let_def assms(1,2) vl)
  next
    case False
    with inb show ?thesis
      by (simp add: getPixel_def Let_def assms(1,2) vl)
  qed
qed

lemma getPixel_other:
  assumes "0 \<le> x" "x < width d" "0 \<le> (y div 8) * width d + x"
    and ne: "(x', y') \<noteq> (x, y)"
    and bits: "\<And>n. n \<noteq> nat (y mod 8) \<Longrightarrow>
                 bit v n = bit (buffer d ! Suc (nat ((y div 8) * width d + x))) n"
  shows "getPixel x' y' (d\<lparr>buffer := (buffer d)[Suc (nat ((y div 8) * width d + x)) := v]\<rparr>)
         = getPixel x' y' d"
proof (rule getPixel_cong)
  let ?i = "(y div 8) * width d + x"
  let ?i' = "(y' div 8) * width d + x'"
  let ?d' = "d\<lparr>buffer := (buffer d)[Suc (nat ?i) := v]\<rparr>"
  show "width ?d' = width d" "height ?d' = height d" "length (buffer ?d') = length (buffer d)"
    by simp_all
  assume inb: "0 \<le> x'" "x' < width d" "0 \<le> y'" "y' < height d"
    and rng: "0 \<le> ?i'" "?i' < int (view_len d)"
  show "bit (buffer ?d' ! Suc (nat ?i')) (nat (y' mod 8))
        = bit (buffer d ! Suc (nat ?i')) (nat (y' mod 8))"
  proof (cases "?i' = ?i")
    case False
    then have "nat ?i' \<noteq> nat ?i"
      using assms(3) rng(1) by simp
    then show ?thesis by simp
  next
    case same: True
    then have xy: "y' div 8 = y div 8 \<and> x' = x"
      using pixel_index_inj [of x' "width d" x "y' div 8" "y div 8"] inb assms(1,2) by simp
    with ne have "y' \<noteq> y" by simp
    with xy have "y' mod 8 \<noteq> y mod 8"
      by presburger
    then have nb: "nat (y' mod 8) \<noteq> nat (y mod 8)"
      by simp
    have "Suc (nat ?i) < length (buffer d)"
      using rng same by (simp add: view_len_def)
    then have "(buffer d)[Suc (nat ?i) := v] ! Suc (nat ?i') = v"
      using same by simp
    then show ?thesis
      using bits [OF nb] same by simp
  qed
qed

lemma panel_2x12_eq: "SSD1306_I2C 2 12 0x3C False False = Inr panel_2x12"
  by (simp add: panel_2x12_def SSD1306_I2C_eq)

lemma panel_2x12_fields:
  "width panel_2x12 = 2" "height panel_2x12 = 12" "pages panel_2x12 = 1"
  "buffer panel_2x12 = [0x40, 0, 0]"
  by (simp_all add: panel_2x12_def SSD1306_I2C_eq numeral_2_eq_2)

lemma nth_after_fill:
  assumes "Suc i < length b"
  shows "(take (Suc 0) b @ replicate (length b - Suc 0) v) ! Suc i = v"
  using assms by (cases b) simp_all

section \<open>The initialization sequence\<close>

text \<open>
  Claim C1. For every width, height and external-power flag, \<open>init_display\<close> sends
  exactly the command bytes of \<open>init_sequence\<close> in order (steps 1 to 16 of section
  4.2 with their height and power parameters, then 0xAD, 0x30 exactly when the width is
  72), each as a command write to the device; it then fills the pixel buffer with 0 and
  performs one \<open>show\<close>: the six window commands and the pixel bytes, all zero.
\<close>

theorem init_display_sends_init_sequence:
  "init_display d =
     show_display (fill 0
       (d\<lparr>trace := trace d @ cmds (addr d) (init_sequence (width d) (height d) (external_vcc d))\<rparr>))
   \<and> trace (init_display d) =
       trace d @ cmds (addr d) (init_sequence (width d) (height d) (external_vcc d))
       @ cmds (addr d) (window_cmds d) @ data (addr d) (replicate (view_len d) 0)
   \<and> serialize (init_display d) = replicate (view_len d) 0"
proof (intro conjI)
  show "init_display d =
     show_display (fill 0
       (d\<lparr>trace := trace d @ cmds (addr d) (init_sequence (width d) (height d) (external_vcc d))\<rparr>))"
    by (cases "buffer d")
       (simp_all add: init_display_eq show_display_eq fill_eq window_cmds_def column_offset_def)
  show "trace (init_display d) =
       trace d @ cmds (addr d) (init_sequence (width d) (height d) (external_vcc d))
       @ cmds (addr d) (window_cmds d) @ data (addr d) (replicate (view_len d) 0)"
    by (simp add: init_display_eq view_len_def)
  show "serialize (init_display d) = replicate (view_len d) 0"
    by (simp add: init_display_eq serialize_eq view_len_def)
qed

theorem init_display_sends_init_sequence_witness:
  "trace (init_display oled) =
     trace oled
     @ cmds 0x3C [0xAE, 0x20, 0x00, 0x40, 0xA1, 0xA8, 63, 0xC8, 0xD3, 0x00, 0xDA, 0x12, 0xD5, 0x80,
                  0xD9, 0xF1, 0xDB, 0x30, 0x81, 0xFF, 0xA4, 0xA6, 0x8D, 0x14, 0xAF]
     @ cmds 0x3C [0x21, 0, 127, 0x22, 0, 7] @ data 0x3C (replicate 1024 0)"
  using init_display_sends_init_sequence [of oled, THEN conjunct2, THEN conjunct1]
  by (simp add: oled_fields init_sequence_def window_cmds_def column_offset_def view_len_def)

section \<open>The addressing window of show\<close>

text \<open>
  Claim C2. \<open>show\<close> first sends the column-address command 0x21 with the bytes xpos0,
  xpos1 and then the page-address command 0x22 with the bytes 0, pages - 1, where
  [xpos0, xpos1] is [0, width - 1] shifted by 32 for a width of 64, by 28 for a width of
  72 and by 0 otherwise; the pixel bytes follow. A driver constructed for 128 by 64 sends
  the column window [0, 127] and the page window [0, 7], one for 64 by 48 the column
  window [32, 95], one for 72 by 40 the column window [28, 99].
\<close>

theorem show_sends_window:
  "trace (show_display d) =
     trace d
     @ cmds (addr d)
         [0x21,
          0 + (if width d = 64 then 32 else if width d = 72 then 28 else 0),
          width d - 1 + (if width d = 64 then 32 else if width d = 72 then 28 else 0),
          0x22, 0, pages d - 1]
     @ data (addr d) (drop 1 (buffer d))
   \<and> (\<exists>d1. SSD1306_I2C 128 64 a vcc rst = Inr d1 \<and>
          trace (show_display d1) =
            trace d1 @ cmds a [0x21, 0, 127, 0x22, 0, 7] @ data a (drop 1 (buffer d1)))
   \<and> (\<exists>d2. SSD1306_I2C 64 48 a vcc rst = Inr d2 \<and>
          trace (show_display d2) =
            trace d2 @ cmds a [0x21, 32, 95, 0x22, 0, 5] @ data a (drop 1 (buffer d2)))
   \<and> (\<exists>d3. SSD1306_I2C 72 40 a vcc rst = Inr d3 \<and>
          trace (show_display d3) =
            trace d3 @ cmds a [0x21, 28, 99, 0x22, 0, 4] @ data a (drop 1 (buffer d3)))"
proof (intro conjI)
  show "trace (show_display d) =
     trace d
     @ cmds (addr d)
         [0x21,
          0 + (if width d = 64 then 32 else if width d = 72 then 28 else 0),
          width d - 1 + (if width d = 64 then 32 else if width d = 72 then 28 else 0),
          0x22, 0, pages d - 1]
     @ data (addr d) (drop 1 (buffer d))"
    by (simp add: show_display_eq)
  show "\<exists>d1. SSD1306_I2C 128 64 a vcc rst = Inr d1 \<and>
          trace (show_display d1) =
            trace d1 @ cmds a [0x21, 0, 127, 0x22, 0, 7] @ data a (drop 1 (buffer d1))"
    by (simp add: SSD1306_I2C_eq show_display_eq)
  show "\<exists>d2. SSD1306_I2C 64 48 a vcc rst = Inr d2 \<and>
          trace (show_display d2) =
            trace d2 @ cmds a [0x21, 32, 95, 0x22, 0, 5] @ data a (drop 1 (buffer d2))"
    by (simp add: SSD1306_I2C_eq show_display_eq)
  show "\<exists>d3. SSD1306_I2C 72 40 a vcc rst = Inr d3 \<and>
          trace (show_display d3) =
            trace d3 @ cmds a [0x21, 28, 99, 0x22, 0, 4] @ data a (drop 1 (buffer d3))"
    by (simp add: SSD1306_I2C_eq show_display_eq)
qed

theorem show_sends_window_witness:
  "trace (show_display oled) =
     trace oled @ cmds 0x3C [0x21, 0, 127, 0x22, 0, 7] @ data 0x3C (replicate 1024 0)"
  using show_sends_window [of oled, THEN conjunct1] by (simp add: oled_fields)

section \<open>The data stream of show\<close>

text \<open>
  Claim C3. For every driver (the object the constructor returns, after any operations),
  \<open>show\<close> sends, after the six window commands, exactly pages * width data writes,
  whose bytes are the pixel buffer's bytes in storage order: the write at position
  page * width + column carries the byte of that page and column. The serialized pixel
  bytes have length pages * width, and a \<open>show\<close> leaves them as they are, so a second
  \<open>show\<close> streams the same bytes.
\<close>

theorem show_streams_pixel_bytes:
  assumes "SSD1306_I2C w h a vcc rst = Inr d0" and "d = run ops d0"
  shows "trace (show_display d) = trace d @ cmds a (window_cmds d) @ data a (serialize d)
    \<and> int (length (serialize d)) = pages d * width d
    \<and> int (length (data a (serialize d))) = pages d * width d
    \<and> (\<forall>p c. 0 \<le> p \<and> p < pages d \<and> 0 \<le> c \<and> c < width d \<longrightarrow>
          data a (serialize d) ! nat (p * width d + c)
            = BusWrite a 0x40 (uint (view_get d (nat (p * width d + c)))))
    \<and> serialize (show_display d) = serialize d
    \<and> trace (show_display (show_display d)) =
        trace (show_display d) @ cmds a (window_cmds d) @ data a (serialize d)"
proof -
  have a: "addr d = a"
    using assms by (simp add: run_fields constructed_fields)
  have inv: "driver_inv d"
    using assms driver_inv_run by simp
  have len: "int (length (serialize d)) = pages d * width d"
    using view_len_inv [OF inv] by (simp add: serialize_def)
  have t: "trace (show_display d) = trace d @ cmds a (window_cmds d) @ data a (serialize d)"
    by (simp add: show_display_eq a serialize_eq window_cmds_def column_offset_def)
  have s: "serialize (show_display d) = serialize d"
    by (simp add: show_display_eq serialize_eq)
  have t2: "trace (show_display (show_display d)) =
        trace (show_display d) @ cmds a (window_cmds d) @ data a (serialize d)"
    by (simp add: show_display_eq a serialize_eq window_cmds_def column_offset_def)
  have order: "data a (serialize d) ! nat (p * width d + c)
            = BusWrite a 0x40 (uint (view_get d (nat (p * width d + c))))"
    if "0 \<le> p" "p < pages d" "0 \<le> c" "c < width d" for p c
  proof -
    have "0 \<le> p * width d + c" and "p * width d + c < pages d * width d"
      using that by (rule page_column_index)+
    then have "nat (p * width d + c) < view_len d"
      using view_len_inv [OF inv] by (rule nat_less_view)
    then show ?thesis
      by (simp add: data_def serialize_def)
  qed
  from t len s t2 order show ?thesis
    by (simp add: data_def)
qed

theorem show_streams_pixel_bytes_witness:
  "int (length (serialize (run [Fill 1, Invert 1] oled))) = 8 * 128
   \<and> serialize (show_display (run [Fill 1, Invert 1] oled)) = serialize (run [Fill 1, Invert 1] oled)"
proof -
  note t = show_streams_pixel_bytes
    [OF oled_eq [unfolded SSD1306_I2C_default_def] refl, of "[Fill 1, Invert 1]"]
  from t [THEN conjunct2, THEN conjunct1]
    t [THEN conjunct2, THEN conjunct2, THEN conjunct2, THEN conjunct2, THEN conjunct1]
  show ?thesis
    by (simp add: run_fields oled_fields)
qed

section \<open>Power control\<close>

text \<open>
  Claim C4. On every initialized driver (the object the constructor returns, after any
  operations), \<open>poweroff\<close> sends exactly the single command byte 0xAE and sets the power
  query to false; \<open>poweron\<close> sends exactly the single command byte 0xAF, preceded by
  the reset pulse when there is a reset line, and sets the power query to true. A
  \<open>poweroff\<close> followed by a \<open>poweron\<close> adds the two commands 0xAE, 0xAF and nothing
  else: after construction and one such pair, the command bytes on the bus are those of
  construction followed by 0xAE, 0xAF, and the initialization sequence occurs among them
  exactly once.
\<close>

theorem poweroff_poweron_no_reinit:
  assumes "SSD1306_I2C w h a vcc rst = Inr d0" and "d = run ops d0"
  shows "poweroff d = d\<lparr>trace := trace d @ cmds a [0xAE], power_flag := False\<rparr>
    \<and> power_query (poweroff d) = False
    \<and> poweron d = d\<lparr>trace := trace d @ reset_pulse rst @ cmds a [0xAF], power_flag := True\<rparr>
    \<and> power_query (poweron d) = True
    \<and> trace (poweron (poweroff d)) = trace d @ cmds a [0xAE] @ reset_pulse rst @ cmds a [0xAF]
    \<and> command_bytes (trace (poweron (poweroff d))) = command_bytes (trace d) @ [0xAE, 0xAF]
    \<and> command_bytes (trace (poweron (poweroff d0))) =
        [0xAF] @ init_sequence w h vcc
        @ [0x21, column_offset w, w - 1 + column_offset w, 0x22, 0, h div 8 - 1] @ [0xAE, 0xAF]
    \<and> occurrences (init_sequence w h vcc) (command_bytes (trace (poweron (poweroff d0)))) = 1"
proof -
  have a: "addr d = a" and r: "reset_pin d = rst"
    using assms by (simp_all add: run_fields constructed_fields)
  have a0: "addr d0 = a" and r0: "reset_pin d0 = rst"
    using assms by (simp_all add: constructed_fields)
  have off: "poweroff d = d\<lparr>trace := trace d @ cmds a [0xAE], power_flag := False\<rparr>"
    by (simp add: poweroff_eq a)
  have on: "poweron d = d\<lparr>trace := trace d @ reset_pulse rst @ cmds a [0xAF], power_flag := True\<rparr>"
    by (simp add: poweron_eq a r)
  have pair: "trace (poweron (poweroff d)) = trace d @ cmds a [0xAE] @ reset_pulse rst @ cmds a [0xAF]"
    by (simp add: poweron_eq poweroff_eq a r)
  have cb: "command_bytes (trace (poweron (poweroff d))) = command_bytes (trace d) @ [0xAE, 0xAF]"
    by (simp add: pair command_bytes_append command_bytes_cmds command_bytes_reset_pulse)
  have pair0: "trace (poweron (poweroff d0)) = trace d0 @ cmds a [0xAE] @ reset_pulse rst @ cmds a [0xAF]"
    by (simp add: poweron_eq poweroff_eq a0 r0)
  have cb0: "command_bytes (trace (poweron (poweroff d0))) =
        [0xAF] @ init_sequence w h vcc
        @ [0x21, column_offset w, w - 1 + column_offset w, 0x22, 0, h div 8 - 1] @ [0xAE, 0xAF]"
    by (simp add: pair0 constructed_trace [OF assms(1)] command_bytes_append command_bytes_cmds
        command_bytes_reset_pulse command_bytes_data)
  have once: "occurrences (init_sequence w h vcc) (command_bytes (trace (poweron (poweroff d0)))) = 1"
    unfolding cb0 by (rule occurrences_init_sequence)
  show ?thesis
    using off on pair cb cb0 once by (simp add: power_query_def)
qed


theorem poweroff_poweron_no_reinit_witness:
  "power_query (poweroff (run [Fill 1, Show] oled)) = False
   \<and> power_query (poweron (run [Fill 1, Show] oled)) = True
   \<and> command_bytes (trace (poweron (poweroff oled))) =
       [0xAF,
        0xAE, 0x20, 0x00, 0x40, 0xA1, 0xA8, 63, 0xC8, 0xD3, 0x00, 0xDA, 0x12, 0xD5, 0x80,
        0xD9, 0xF1, 0xDB, 0x30, 0x81, 0xFF, 0xA4, 0xA6, 0x8D, 0x14, 0xAF,
        0x21, 0, 127, 0x22, 0, 7,
        0xAE, 0xAF]"
proof -
  note t = poweroff_poweron_no_reinit
    [OF oled_eq [unfolded SSD1306_I2C_default_def] refl, of "[Fill 1, Show]"]
  note c2 = t [THEN conjunct2, THEN conjunct1]
  note c4 = t [THEN conjunct2, THEN conjunct2, THEN conjunct2, THEN conjunct1]
  note c7 = t [THEN conjunct2, THEN conjunct2, THEN conjunct2, THEN conjunct2, THEN conjunct2,
    THEN conjunct2, THEN conjunct1]
  from c2 c4 c7 show ?thesis
    by (simp add: init_sequence_def column_offset_def)
qed

section \<open>The reset pulse\<close>

text \<open>
  Claim C5. With a reset line, construction and every later \<open>poweron\<close> pulse the line
  before the display-on command 0xAF: the line is driven low, then at least 1 ms pass
  (the code asks for 10), it is driven high, then at least 10 ms pass, and the display-on
  command is the next event. The code's full sequence is: high, 1 ms, low, 10 ms, high,
  10 ms, display on; at construction the line is first switched to output at low.
\<close>

theorem reset_pulse_before_display_on:
  assumes "SSD1306_I2C w h a vcc True = Inr d0" and "d = run ops d0"
  shows "take 8 (trace d0) =
           [SwitchToOutput 0, PinValue 1, Sleep 1, PinValue 0, Sleep 10, PinValue 1, Sleep 10,
            BusWrite a 0x80 0xAF]
    \<and> trace (poweron d) =
           trace d @ [PinValue 1, Sleep 1, PinValue 0, Sleep 10, PinValue 1, Sleep 10,
                      BusWrite a 0x80 0xAF]
    \<and> (\<exists>pre t1 t2. take 8 (trace d0) =
           pre @ [PinValue 0, Sleep t1, PinValue 1, Sleep t2, BusWrite a 0x80 0xAF]
           \<and> 1 \<le> t1 \<and> 10 \<le> t2)
    \<and> (\<exists>pre t1 t2. trace (poweron d) =
           trace d @ pre @ [PinValue 0, Sleep t1, PinValue 1, Sleep t2, BusWrite a 0x80 0xAF]
           \<and> 1 \<le> t1 \<and> 10 \<le> t2)"
proof -
  have a: "addr d = a" and r: "reset_pin d"
    using assms by (simp_all add: run_fields constructed_fields)
  have c: "take 8 (trace d0) =
           [SwitchToOutput 0, PinValue 1, Sleep 1, PinValue 0, Sleep 10, PinValue 1, Sleep 10,
            BusWrite a 0x80 0xAF]"
    by (simp add: constructed_trace [OF assms(1)] reset_pulse_def cmds_def)
  have p: "trace (poweron d) =
           trace d @ [PinValue 1, Sleep 1, PinValue 0, Sleep 10, PinValue 1, Sleep 10,
                      BusWrite a 0x80 0xAF]"
    by (simp add: poweron_eq a r reset_pulse_def cmds_def)
  have c': "take 8 (trace d0) =
           [SwitchToOutput 0, PinValue 1, Sleep 1]
           @ [PinValue 0, Sleep 10, PinValue 1, Sleep 10, BusWrite a 0x80 0xAF]
           \<and> (1::nat) \<le> 10 \<and> (10::nat) \<le> 10"
    by (simp add: c)
  have p': "trace (poweron d) =
           trace d @ [PinValue 1, Sleep 1]
           @ [PinValue 0, Sleep 10, PinValue 1, Sleep 10, BusWrite a 0x80 0xAF]
           \<and> (1::nat) \<le> 10 \<and> (10::nat) \<le> 10"
    by (simp add: p)
  from c p c' p' show ?thesis by blast
qed

theorem reset_pulse_before_display_on_witness:
  "\<exists>d0. SSD1306_I2C 128 64 0x3C False True = Inr d0
     \<and> trace (poweron (run [Poweroff] d0)) =
         trace (run [Poweroff] d0)
         @ [PinValue 1, Sleep 1, PinValue 0, Sleep 10, PinValue 1, Sleep 10, BusWrite 0x3C 0x80 0xAF]"
proof -
  obtain d0 where d0: "SSD1306_I2C 128 64 0x3C False True = Inr d0"
    by (simp add: SSD1306_I2C_eq)
  from reset_pulse_before_display_on [OF d0 refl, of "[Poweroff]"] d0 show ?thesis
    by blast
qed

section \<open>Inversion\<close>

text \<open>
  Claim C6, as stated, fails: \<open>invert(8)\<close> on the driver of the main block sends 0xA6,
  while 0xA6 | 8 is 0xAE, the display-off command.
\<close>

theorem invert_flag_counterexample:
  "trace (invert 8 oled) = trace oled @ cmds 0x3C [0xA6]
   \<and> (0xA6 :: int) OR 8 = 0xAE
   \<and> trace (invert 8 oled) \<noteq> trace oled @ cmds 0x3C [0xA6 OR 8]"
  by (simp add: invert_eq oled_fields cmds_def)

text \<open>
  Claim C6, amended. For every flag value, \<open>invert(flag)\<close> sends the single command
  byte 0xA6 | (flag & 1): the code masks the flag to its lowest bit (line 102). In
  particular \<open>invert(1)\<close> sends 0xA7 and \<open>invert(0)\<close> sends 0xA6. \<open>invert\<close> never
  changes the pixel buffer, nor anything else of the driver but the bus traffic.
\<close>

theorem invert_sends_masked_flag:
  "invert flag d = d\<lparr>trace := trace d @ cmds (addr d) [0xA6 OR (flag AND 1)]\<rparr>
   \<and> trace (invert 1 d) = trace d @ cmds (addr d) [0xA7]
   \<and> trace (invert 0 d) = trace d @ cmds (addr d) [0xA6]
   \<and> buffer (invert flag d) = buffer d
   \<and> serialize (invert flag d) = serialize d"
  by (simp add: invert_eq serialize_eq)

theorem invert_sends_masked_flag_witness:
  "invert 3 oled = oled\<lparr>trace := trace oled @ cmds 0x3C [0xA7]\<rparr>"
  using invert_sends_masked_flag [of 3 oled, THEN conjunct1] by (simp add: oled_fields)

section \<open>Pixels\<close>

text \<open>
  Claim C7, as stated, fails. The constructor returns a driver for a width of 2 and a
  height of 12, with one page of two pixel bytes. The coordinate (1, 10) is within
  0 \<le> x < width and 0 \<le> y < height, but its byte index (10 // 8) * 2 + 1 = 3 is behind
  the last pixel byte: \<open>set(1, 10, 1)\<close> fails, and \<open>get(1, 10)\<close> after it does not
  return 1.
\<close>

theorem setPixel_getPixel_counterexample:
  "SSD1306_I2C 2 12 0x3C False False = Inr panel_2x12
   \<and> (0::int) \<le> 1 \<and> 1 < width panel_2x12 \<and> (0::int) \<le> 10 \<and> 10 < height panel_2x12
   \<and> setPixel 1 10 1 panel_2x12 = Inl IndexError
   \<and> getPixel 1 10 (exec_op (SetPixel 1 10 1) panel_2x12) = Inl IndexError
   \<and> getPixel 1 10 (exec_op (SetPixel 1 10 1) panel_2x12) \<noteq> Inr 1"
proof -
  have s: "setPixel 1 10 1 panel_2x12 = Inl IndexError"
    by (simp add: setPixel_def view_len_def panel_2x12_fields)
  have g: "getPixel 1 10 panel_2x12 = Inl IndexError"
    by (simp add: getPixel_def view_len_def panel_2x12_fields)
  from s g show ?thesis
    by (simp add: panel_2x12_eq panel_2x12_fields)
qed

text \<open>
  Claim C7, amended. On every driver (the object the constructor returns, after any
  operations), for all coordinates with 0 \<le> x < width and 0 \<le> y < height whose row lies
  in an allocated page, y < 8 * (height // 8), which is every row when the height is a
  multiple of 8 (lemma \<open>rows_in_pages\<close>): \<open>set(x, y, 1)\<close> succeeds and a following
  \<open>get(x, y)\<close> returns 1; \<open>set(x, y, 0)\<close> succeeds and a following \<open>get(x, y)\<close>
  returns 0; \<open>get\<close> at every other coordinate returns what it returned before the
  \<open>set\<close>; the only storage location that changes is bit y % 8 of the pixel byte
  (y // 8) * width + x, and nothing of the driver but its buffer changes.
\<close>

theorem setPixel_then_getPixel:
  assumes "SSD1306_I2C w h a vcc rst = Inr d0" and "d = run ops d0"
    and "0 \<le> x" "x < w" "0 \<le> y" "y < h" "y < 8 * (h div 8)"
  shows "\<exists>d1 d2.
      setPixel x y 1 d = Inr d1 \<and> getPixel x y d1 = Inr 1
    \<and> setPixel x y 0 d = Inr d2 \<and> getPixel x y d2 = Inr 0
    \<and> (\<forall>x' y'. (x', y') \<noteq> (x, y) \<longrightarrow>
          getPixel x' y' d1 = getPixel x' y' d \<and> getPixel x' y' d2 = getPixel x' y' d)
    \<and> nat ((y div 8) * w + x) < length (serialize d)
    \<and> serialize d1 = (serialize d)[nat ((y div 8) * w + x) :=
          set_bit (nat (y mod 8)) (serialize d ! nat ((y div 8) * w + x))]
    \<and> serialize d2 = (serialize d)[nat ((y div 8) * w + x) :=
          unset_bit (nat (y mod 8)) (serialize d ! nat ((y div 8) * w + x))]
    \<and> d1\<lparr>buffer := buffer d\<rparr> = d \<and> d2\<lparr>buffer := buffer d\<rparr> = d"
proof -
  note f = constructed_fields [OF assms(1)]
  have wd: "width d = w" and hd: "height d = h"
    using assms(2) by (simp_all add: run_fields f)
  have inv: "driver_inv d"
    using assms(1,2) driver_inv_run by simp
  have hyp: "0 \<le> x" "x < width d" "0 \<le> y" "y < 8 * (height d div 8)"
    using assms(3-7) wd hd by simp_all
  have yh: "y < height d"
    using assms(6) hd by simp
  define i where "i = nat ((y div 8) * w + x)"
  define k where "k = nat (y mod 8)"
  define old where "old = buffer d ! Suc i"
  define d1 where "d1 = d\<lparr>buffer := (buffer d)[Suc i := set_bit k old]\<rparr>"
  define d2 where "d2 = d\<lparr>buffer := (buffer d)[Suc i := unset_bit k old]\<rparr>"
  have k8: "k < 8"
    unfolding k_def by simp
  have ib: "0 \<le> (y div 8) * w + x" "(y div 8) * w + x < int (view_len d)"
    using pixel_index_bound [OF inv hyp] wd by simp_all
  then have iv: "i < view_len d"
    unfolding i_def by simp
  then have il: "Suc i < length (buffer d)" and isr: "i < length (serialize d)"
    by (simp_all add: view_len_def serialize_eq)
  have s1: "setPixel x y 1 d = Inr d1"
    using setPixel_in_range [OF inv hyp yh, of 1] by (simp add: d1_def i_def k_def old_def wd)
  have s2: "setPixel x y 0 d = Inr d2"
    using setPixel_in_range [OF inv hyp yh, of 0] by (simp add: d2_def i_def k_def old_def wd)
  have inv1: "driver_inv d1" and inv2: "driver_inv d2"
    unfolding d1_def d2_def using inv by (rule driver_inv_buffer_update)+
  have g1: "getPixel x y d1 = Inr 1"
    using getPixel_in_range [OF inv1, of x y] hyp yh il k8
    by (simp add: d1_def i_def [symmetric] k_def [symmetric] wd bit_set_bit_iff)
  have g2: "getPixel x y d2 = Inr 0"
    using getPixel_in_range [OF inv2, of x y] hyp yh il
    by (simp add: d2_def i_def [symmetric] k_def [symmetric] wd bit_unset_bit_iff)
  have i0: "0 \<le> (y div 8) * width d + x"
    using ib(1) wd by simp
  have o1: "getPixel x' y' d1 = getPixel x' y' d" if "(x', y') \<noteq> (x, y)" for x' y'
    unfolding d1_def i_def
    using getPixel_other [OF hyp(1,2) i0 that, of "set_bit k old"]
    by (simp add: wd k_def old_def i_def bit_set_bit_iff)
  have o2: "getPixel x' y' d2 = getPixel x' y' d" if "(x', y') \<noteq> (x, y)" for x' y'
    unfolding d2_def i_def
    using getPixel_other [OF hyp(1,2) i0 that, of "unset_bit k old"]
    by (simp add: wd k_def old_def i_def bit_unset_bit_iff)
  have so: "serialize d ! i = old"
    using il by (simp add: serialize_eq old_def)
  have e1: "serialize d1 = (serialize d)[i := set_bit k (serialize d ! i)]"
    by (simp add: so) (simp add: serialize_eq d1_def drop_update_swap)
  have e2: "serialize d2 = (serialize d)[i := unset_bit k (serialize d ! i)]"
    by (simp add: so) (simp add: serialize_eq d2_def drop_update_swap)
  have r1: "d1\<lparr>buffer := buffer d\<rparr> = d" and r2: "d2\<lparr>buffer := buffer d\<rparr> = d"
    by (simp_all add: d1_def d2_def)
  from s1 g1 s2 g2 o1 o2 isr e1 e2 r1 r2 show ?thesis
    unfolding i_def k_def by blast
qed

theorem setPixel_then_getPixel_witness:
  "\<exists>d1 d2. setPixel 3 10 1 (run [Fill 0] oled) = Inr d1 \<and> getPixel 3 10 d1 = Inr 1
     \<and> setPixel 3 10 0 (run [Fill 0] oled) = Inr d2 \<and> getPixel 3 10 d2 = Inr 0"
proof -
  have "\<exists>d1 d2. setPixel 3 10 1 (run [Fill 0] oled) = Inr d1 \<and> getPixel 3 10 d1 = Inr 1
     \<and> setPixel 3 10 0 (run [Fill 0] oled) = Inr d2 \<and> getPixel 3 10 d2 = Inr 0
     \<and> (\<forall>x' y'. (x', y') \<noteq> (3, 10) \<longrightarrow>
          getPixel x' y' d1 = getPixel x' y' (run [Fill 0] oled)
          \<and> getPixel x' y' d2 = getPixel x' y' (run [Fill 0] oled))
     \<and> nat ((10 div 8) * 128 + 3) < length (serialize (run [Fill 0] oled))
     \<and> serialize d1 = (serialize (run [Fill 0] oled))[nat ((10 div 8) * 128 + 3) :=
          set_bit (nat (10 mod 8)) (serialize (run [Fill 0] oled) ! nat ((10 div 8) * 128 + 3))]
     \<and> serialize d2 = (serialize (run [Fill 0] oled))[nat ((10 div 8) * 128 + 3) :=
          unset_bit (nat (10 mod 8)) (serialize (run [Fill 0] oled) ! nat ((10 div 8) * 128 + 3))]
     \<and> d1\<lparr>buffer := buffer (run [Fill 0] oled)\<rparr> = run [Fill 0] oled
     \<and> d2\<lparr>buffer := buffer (run [Fill 0] oled)\<rparr> = run [Fill 0] oled"
    by (rule setPixel_then_getPixel [OF oled_eq [unfolded SSD1306_I2C_default_def] refl]) simp_all
  then show ?thesis by blast
qed

text \<open>
  Claim C8, as stated, fails in its \<open>get\<close> part. On the driver for a width of 2 and a
  height of 12, the coordinate (1, 10) is in bounds, and \<open>get(1, 10)\<close> fails after
  \<open>fill(0)\<close> and after \<open>fill(1)\<close>: row 10 has no byte.
\<close>

theorem fill_getPixel_counterexample:
  "SSD1306_I2C 2 12 0x3C False False = Inr panel_2x12
   \<and> (0::int) \<le> 1 \<and> 1 < width panel_2x12 \<and> (0::int) \<le> 10 \<and> 10 < height panel_2x12
   \<and> getPixel 1 10 (fill 0 panel_2x12) = Inl IndexError
   \<and> getPixel 1 10 (fill 0 panel_2x12) \<noteq> Inr 0
   \<and> getPixel 1 10 (fill 1 panel_2x12) = Inl IndexError
   \<and> getPixel 1 10 (fill 1 panel_2x12) \<noteq> Inr 1"
proof -
  have g: "getPixel 1 10 (fill c panel_2x12) = Inl IndexError" for c
    by (simp add: getPixel_def view_len_def fill_eq panel_2x12_fields)
  show ?thesis
    by (simp add: g panel_2x12_eq panel_2x12_fields)
qed

text \<open>
  Claim C8, amended. On every driver (the object the constructor returns, after any
  operations): after \<open>fill(0)\<close> every byte of the pixel buffer is 0x00, and \<open>get\<close>
  returns 0 at every in-bounds coordinate whose row lies in an allocated page,
  y < 8 * (height // 8); after \<open>fill(1)\<close> every byte is 0xFF, and \<open>get\<close> returns 1 at
  those coordinates. When the height is a multiple of 8, these are all the in-bounds
  coordinates. \<open>fill\<close> with any colour keeps the length of the buffer. Only the \<open>get\<close>
  part depends on the rows; the byte and length parts hold for every height.
\<close>

theorem fill_then_getPixel:
  assumes "SSD1306_I2C w h a vcc rst = Inr d0" and "d = run ops d0"
  shows "serialize (fill 0 d) = replicate (nat ((h div 8) * w)) 0x00
    \<and> serialize (fill 1 d) = replicate (nat ((h div 8) * w)) 0xFF
    \<and> (\<forall>x y. 0 \<le> x \<and> x < w \<and> 0 \<le> y \<and> y < h \<and> y < 8 * (h div 8) \<longrightarrow>
          getPixel x y (fill 0 d) = Inr 0 \<and> getPixel x y (fill 1 d) = Inr 1)
    \<and> (h mod 8 = 0 \<longrightarrow>
         (\<forall>x y. 0 \<le> x \<and> x < w \<and> 0 \<le> y \<and> y < h \<longrightarrow>
            getPixel x y (fill 0 d) = Inr 0 \<and> getPixel x y (fill 1 d) = Inr 1))
    \<and> length (serialize (fill c d)) = length (serialize d)
    \<and> length (buffer (fill c d)) = length (buffer d)"
proof -
  note f = constructed_fields [OF assms(1)]
  have len: "length (buffer d) = Suc (nat ((h div 8) * w))"
    using assms(2) by (simp add: run_fields f)
  have ser: "serialize (fill c' d) = replicate (nat ((h div 8) * w)) (if c' = 0 then 0x00 else 0xFF)"
    for c'
    using len by (cases "buffer d") (simp_all add: fill_eq serialize_eq)
  have run': "fill c' d = run (ops @ [Fill c']) d0" for c'
    by (simp add: run_def assms(2))
  have fl: "length (buffer (fill c' d)) = length (buffer d)" for c'
    by (simp add: fill_eq take1_replicate_length)
  have px: "getPixel x y (fill c' d) = Inr (if c' = 0 then 0 else 1)"
    if "0 \<le> x" "x < w" "0 \<le> y" "y < h" "y < 8 * (h div 8)" for x y c'
  proof -
    have inv: "driver_inv (fill c' d)"
      unfolding run' using assms(1) by (rule driver_inv_run)
    have wd: "width (fill c' d) = w" and hd: "height (fill c' d) = h"
      by (simp_all add: run' run_fields f)
    have hyp: "0 \<le> x" "x < width (fill c' d)" "0 \<le> y"
        "y < 8 * (height (fill c' d) div 8)"
      using that wd hd by simp_all
    have yh: "y < height (fill c' d)"
      using that(4) hd by simp
    let ?i = "nat ((y div 8) * w + x)"
    have "0 \<le> (y div 8) * w + x" "(y div 8) * w + x < int (view_len (fill c' d))"
      using pixel_index_bound [OF inv hyp] wd by simp_all
    then have "?i < view_len (fill c' d)"
      by simp
    then have il: "Suc ?i < length (buffer d)"
      by (simp add: view_len_def fl)
    have byte: "buffer (fill c' d) ! Suc ?i = (if c' = 0 then 0x00 else 0xFF)"
      using nth_after_fill [OF il] by (simp add: fill_eq)
    have k8: "nat (y mod 8) < 8"
      by simp
    show ?thesis
      using getPixel_in_range [OF inv hyp yh] byte bit_255 [OF k8]
      by (simp add: wd)
  qed
  have px8: "getPixel x y (fill c' d) = Inr (if c' = 0 then 0 else 1)"
    if "h mod 8 = 0" "0 \<le> x" "x < w" "0 \<le> y" "y < h" for x y c'
    using that(2-5) rows_in_pages [OF that(1,5)] by (rule px)
  from ser [of 0] ser [of 1] px [of _ _ 0] px [of _ _ 1] px8 [of _ _ 0] px8 [of _ _ 1] fl [of c]
  show ?thesis
    by (simp add: serialize_eq)
qed

theorem fill_then_getPixel_witness:
  "getPixel 127 63 (fill 0 (run [SetPixel 127 63 1] oled)) = Inr 0
   \<and> getPixel 127 63 (fill 1 (run [SetPixel 127 63 1] oled)) = Inr 1
   \<and> serialize (fill 1 (run [SetPixel 127 63 1] oled)) = replicate 1024 0xFF"
proof -
  note t = fill_then_getPixel
    [OF oled_eq [unfolded SSD1306_I2C_default_def] refl, of "[SetPixel 127 63 1]"]
  from t [THEN conjunct2, THEN conjunct1]
    t [THEN conjunct2, THEN conjunct2, THEN conjunct1, rule_format, of 127 63]
  show ?thesis by simp
qed

section \<open>The control byte of the bytearray\<close>

text \<open>
  Claim C9. The bytearray of the I2C driver has length (height // 8) * width + 1 and its
  first byte is 0x40 after construction. No operation changes that length or that byte:
  a write through the frame buffer's window at any index leaves both as they are, since
  the window starts at index 1. So every \<open>show\<close> streams the bytes after the first,
  which are the pages * width pixel bytes, and never the control byte.
\<close>

theorem control_byte_untouched:
  assumes "SSD1306_I2C w h a vcc rst = Inr d0" and "d = run ops d0"
  shows "length (buffer d0) = nat ((h div 8) * w) + 1 \<and> buffer d0 ! 0 = 0x40
    \<and> length (buffer d) = nat ((h div 8) * w) + 1 \<and> buffer d ! 0 = 0x40
    \<and> (\<forall>i v. length (buffer (view_set i v d)) = length (buffer d)
               \<and> buffer (view_set i v d) ! 0 = buffer d ! 0)
    \<and> trace (show_display d) = trace d @ cmds a (window_cmds d) @ data a (drop 1 (buffer d))
    \<and> drop 1 (buffer d) = serialize d
    \<and> length (drop 1 (buffer d)) = nat (pages d * width d)"
proof -
  note f = constructed_fields [OF assms(1)]
  have a: "addr d = a"
    using assms by (simp add: run_fields f)
  have inv: "driver_inv d"
    using assms driver_inv_run by simp
  have l0: "length (buffer d0) = nat ((h div 8) * w) + 1" and b0: "buffer d0 ! 0 = 0x40"
    by (simp_all add: f)
  have l: "length (buffer d) = nat ((h div 8) * w) + 1" and b: "buffer d ! 0 = 0x40"
    using assms(2) l0 b0 by (simp_all add: run_fields)
  have v: "length (buffer (view_set i v d)) = length (buffer d)
               \<and> buffer (view_set i v d) ! 0 = buffer d ! 0" for i v
    by (simp add: view_set_def)
  have t: "trace (show_display d) = trace d @ cmds a (window_cmds d) @ data a (drop 1 (buffer d))"
    by (simp add: show_display_eq a window_cmds_def column_offset_def)
  have n: "length (drop 1 (buffer d)) = nat (pages d * width d)"
    using inv by (simp add: driver_inv_def)
  from l0 b0 l b v t n show ?thesis
    by (simp add: serialize_eq)
qed

theorem control_byte_untouched_witness:
  "length (buffer (run [Fill 1, SetPixel 0 0 0, Show] oled)) = 1025
   \<and> buffer (run [Fill 1, SetPixel 0 0 0, Show] oled) ! 0 = 0x40"
proof -
  note t = control_byte_untouched
    [OF oled_eq [unfolded SSD1306_I2C_default_def] refl, of "[Fill 1, SetPixel 0 0 0, Show]"]
  from t [THEN conjunct2, THEN conjunct2, THEN conjunct1]
    t [THEN conjunct2, THEN conjunct2, THEN conjunct2, THEN conjunct1]
  show ?thesis by simp
qed

section \<open>Framing of bus writes\<close>



end
